theory Spec2Isabelle
  imports Main "HOL-Library.Sublist"
begin

section \<open>Python strings, bytes and dictionaries\<close>

text \<open>
  The program under study is \<^verbatim>\<open>streamlit_app.py\<close>: it reads the generation
  parameters that image tools embed in PNG and WEBP files and parses them into fields.

  A Python \<^verbatim>\<open>str\<close> is modelled as a \<^typ>\<open>string\<close> holding its UTF-8 encoding, a
  \<^verbatim>\<open>bytes\<close> value as the list of its bytes. Whitespace and letter case are those of
  ASCII: on ASCII text the functions below are Python's. Python also counts a few code
  points beyond ASCII as whitespace (U+0085, U+00A0, U+3000 and others), changes the case
  of letters beyond ASCII, and lets \<^verbatim>\<open>re.IGNORECASE\<close> match U+0130, U+0131 with \<^verbatim>\<open>i\<close>
  and U+017F with \<^verbatim>\<open>s\<close>; the model leaves the bytes of such code points as they are.
\<close>

type_synonym bytes = "char list"

definition ascii_uppercase :: string where
  "ascii_uppercase = ''ABCDEFGHIJKLMNOPQRSTUVWXYZ''"

definition ascii_lowercase :: string where
  "ascii_lowercase = ''abcdefghijklmnopqrstuvwxyz''"

definition lower_c :: "char \<Rightarrow> char" where
  "lower_c c = (case map_of (zip ascii_uppercase ascii_lowercase) c of
                  None \<Rightarrow> c | Some l \<Rightarrow> l)"

definition upper_c :: "char \<Rightarrow> char" where
  "upper_c c = (case map_of (zip ascii_lowercase ascii_uppercase) c of
                  None \<Rightarrow> c | Some u \<Rightarrow> u)"

definition is_cased :: "char \<Rightarrow> bool" where
  "is_cased c = (c \<in> set (ascii_uppercase @ ascii_lowercase))"

text \<open>\<^verbatim>\<open>str.isspace\<close> on one character, which is also the class \<^verbatim>\<open>\s\<close> of \<^verbatim>\<open>re\<close>:
  tab, line feed, vertical tab, form feed, carriage return, the four separators
  0x1C to 0x1F, and the blank.\<close>

definition isspace :: "char \<Rightarrow> bool" where
  "isspace c = (c \<in> set [CHR 0x09, CHR 0x0A, CHR 0x0B, CHR 0x0C, CHR 0x0D,
                          CHR 0x1C, CHR 0x1D, CHR 0x1E, CHR 0x1F, CHR 0x20])"

text \<open>\<^verbatim>\<open>s.lower()\<close>, \<^verbatim>\<open>s.strip()\<close> and \<^verbatim>\<open>s.title()\<close>. In \<^verbatim>\<open>title\<close> a character that
  follows a cased character is lowered, any other is raised.\<close>

definition lower :: "string \<Rightarrow> string" where
  "lower s = map lower_c s"

definition rstrip :: "string \<Rightarrow> string" where
  "rstrip s = rev (dropWhile isspace (rev s))"

definition strip :: "string \<Rightarrow> string" where
  "strip s = rstrip (dropWhile isspace s)"

fun title_from :: "bool \<Rightarrow> string \<Rightarrow> string" where
  "title_from previous_is_cased [] = []"
| "title_from previous_is_cased (c # cs) =
     (if previous_is_cased then lower_c c else upper_c c) # title_from (is_cased c) cs"

definition title :: "string \<Rightarrow> string" where
  "title s = title_from False s"

text \<open>A \<^verbatim>\<open>dict\<close> with string keys and values is the list of its items in insertion
  order. \<^verbatim>\<open>d[k] = v\<close> replaces the value of a key that is present, where it stands, and
  appends a new key; \<^verbatim>\<open>d.update(e)\<close> stores the items of \<^verbatim>\<open>e\<close> in their order.\<close>

type_synonym dict = "(string \<times> string) list"

definition keys :: "dict \<Rightarrow> string list" where
  "keys d = map fst d"

fun dict_set :: "dict \<Rightarrow> string \<Rightarrow> string \<Rightarrow> dict" where
  "dict_set [] k v = [(k, v)]"
| "dict_set ((k', v') # d) k v =
     (if k' = k then (k', v) # d else (k', v') # dict_set d k v)"

definition dict_update :: "dict \<Rightarrow> dict \<Rightarrow> dict" where
  "dict_update d e = foldl (\<lambda>acc (k, v). dict_set acc k v) d e"

definition dict_get :: "dict \<Rightarrow> string \<Rightarrow> string \<Rightarrow> string" where
  "dict_get d k dflt = (case map_of d k of None \<Rightarrow> dflt | Some v \<Rightarrow> v)"

definition dict_pop :: "dict \<Rightarrow> string \<Rightarrow> dict" where
  "dict_pop d k = filter (\<lambda>(k', v). k' \<noteq> k) d"

section \<open>The label grammar\<close>

definition LABELS :: "string list" where
  "LABELS = [''Prompt:'', ''Negative prompt:'', ''Steps:'', ''Sampler:'', ''CFG scale:'',
             ''Seed:'', ''Size:'', ''Model hash:'', ''Model:'', ''Version:'']"

text \<open>Matching a literal of a pattern compiled with \<^verbatim>\<open>re.IGNORECASE\<close> at the head of a
  text: character by character, both sides lowered.\<close>

fun ci_prefix :: "string \<Rightarrow> string \<Rightarrow> bool" where
  "ci_prefix [] s = True"
| "ci_prefix (p # ps) [] = False"
| "ci_prefix (p # ps) (c # cs) = (lower_c c = lower_c p \<and> ci_prefix ps cs)"

text \<open>
  \<^verbatim>\<open>RGX_LABEL\<close>, compiled with \<^verbatim>\<open>IGNORECASE | DOTALL\<close>, is
  \<^verbatim>\<open>(?P<label>(?:A1|...|A10)):\s*(?P<value>.*?)(?=\s*(?:T1|...|T10|$))\<close>.
  \<open>label_alternatives\<close> are A1 to A10 and \<open>lookahead_alternatives\<close> are T1 to T10, in
  the order of the pattern: the last two, Model and Version, carry no colon.
\<close>

definition label_alternatives :: "string list" where
  "label_alternatives = [''Prompt'', ''Negative prompt'', ''Steps'', ''Sampler'',
     ''CFG scale'', ''Seed'', ''Size'', ''Model hash'', ''Model'', ''Version'']"

definition lookahead_alternatives :: "string list" where
  "lookahead_alternatives = [''Prompt:'', ''Negative prompt:'', ''Steps:'', ''Sampler:'',
     ''CFG scale:'', ''Seed:'', ''Size:'', ''Model hash:'', ''Model'', ''Version'']"

text \<open>\<^verbatim>\<open>$\<close> without \<^verbatim>\<open>re.MULTILINE\<close> matches at the end of the text and just before a
  line feed that ends the text.\<close>

definition dollar :: "string \<Rightarrow> bool" where
  "dollar s = (s = [] \<or> s = [CHR 0x0A])"

definition stop_here :: "string \<Rightarrow> bool" where
  "stop_here s = (list_ex (\<lambda>t. ci_prefix t s) lookahead_alternatives \<or> dollar s)"

text \<open>The lookahead \<^verbatim>\<open>(?=\s*(?:...))\<close> at the head of \<open>s\<close>: \<^verbatim>\<open>\s*\<close> may take any
  number \<open>j\<close> of the whitespace characters \<open>s\<close> starts with, and the lookahead holds when
  an alternative matches after one of them.\<close>

definition lookahead :: "string \<Rightarrow> bool" where
  "lookahead s = list_ex (\<lambda>j. stop_here (drop j s)) [0 ..< Suc (length (takeWhile isspace s))]"

text \<open>The lazy \<^verbatim>\<open>(?P<value>.*?)\<close> followed by the lookahead: the shortest prefix after
  which the lookahead holds (\<^verbatim>\<open>.\<close> is any character under \<^verbatim>\<open>DOTALL\<close>). The result is the
  value and the text left after it.\<close>

fun lazy_value :: "string \<Rightarrow> string \<times> string" where
  "lazy_value [] = ([], [])"
| "lazy_value (c # cs) =
     (if lookahead (c # cs) then ([], c # cs)
      else (case lazy_value cs of (v, rest) \<Rightarrow> (c # v, rest)))"

text \<open>
  One attempt of \<^verbatim>\<open>RGX_LABEL\<close> at the head of \<open>s\<close>. The alternatives of the label are
  tried in order, each followed by the colon. What follows the colon cannot fail (the
  lazy value can grow to the end of the text, where \<^verbatim>\<open>$\<close> holds), so the first
  alternative that matches with its colon is the one kept and \<^verbatim>\<open>\s*\<close> keeps all the
  whitespace it took. The result is the text of the groups \<^verbatim>\<open>label\<close> and \<^verbatim>\<open>value\<close> and
  the length of the whole match.
\<close>

definition match_at :: "string \<Rightarrow> (string \<times> string \<times> nat) option" where
  "match_at s =
     (case find (\<lambda>a. ci_prefix (a @ '':'') s) label_alternatives of
        None \<Rightarrow> None
      | Some a \<Rightarrow>
          (case lazy_value (dropWhile isspace (drop (length a + 1) s)) of
             (v, rest) \<Rightarrow> Some (take (length a) s, v, length s - length rest)))"

text \<open>
  \<^verbatim>\<open>RGX_LABEL.finditer(text)\<close>: the matches from left to right, none overlapping. The
  scan tries the pattern at the current position; after a match it goes on where the
  match ended (no match is empty), otherwise one character further. A match keeps
  \<^verbatim>\<open>m.start()\<close>, \<^verbatim>\<open>m.end()\<close> and its two groups.
\<close>

record re_match =
  m_start :: nat
  m_end :: nat
  m_label :: string
  m_value :: string

function finditer_from :: "nat \<Rightarrow> string \<Rightarrow> re_match list" where
  "finditer_from pos s =
     (if s = [] then []
      else (case match_at s of
              None \<Rightarrow> finditer_from (Suc pos) (tl s)
            | Some (lab, v, n) \<Rightarrow>
                \<lparr>m_start = pos, m_end = pos + n, m_label = lab, m_value = v\<rparr>
                  # finditer_from (pos + n) (drop n s)))"
  by pat_completeness auto

text \<open>Every match is at least one character long, so the scan ends: the termination
  proof stands below, after the definitions.\<close>

definition finditer :: "string \<Rightarrow> re_match list" where
  "finditer text = finditer_from 0 text"

section \<open>The parser\<close>

text \<open>The body of the loop of \<^verbatim>\<open>parse_labeled\<close>: the stored key of one match and the
  assignment \<^verbatim>\<open>results[key] = value_raw\<close>.\<close>

definition stored_key :: "string \<Rightarrow> string" where
  "stored_key label_raw =
     (let key_lower = lower label_raw in
      if key_lower = ''cfg scale'' then ''CFG Scale''
      else if key_lower = ''negative prompt'' then ''Negative Prompt''
      else if key_lower = ''model hash'' then ''Model hash''
      else title label_raw)"

definition store_match :: "dict \<Rightarrow> re_match \<Rightarrow> dict" where
  "store_match results m =
     (let label_raw = strip (m_label m);
          value_raw = strip (m_value m)
      in dict_set results (stored_key label_raw) value_raw)"

definition parse_labeled :: "string \<Rightarrow> dict" where
  "parse_labeled text = foldl store_match [] (finditer text)"

text \<open>
  \<^verbatim>\<open>re.search(pattern_next_label, raw_text, flags=re.IGNORECASE)\<close>, where the pattern is
  \<^verbatim>\<open>(?=(L2|...|L10) )\<close> for the labels but the first, each with its colon and followed
  by one blank: the first position at which one of them stands, if any.
\<close>

definition next_label_here :: "string \<Rightarrow> bool" where
  "next_label_here s = list_ex (\<lambda>l. ci_prefix (l @ '' '') s) (tl LABELS)"

fun search_next_label :: "string \<Rightarrow> nat option" where
  "search_next_label [] = (if next_label_here [] then Some 0 else None)"
| "search_next_label (c # cs) =
     (if next_label_here (c # cs) then Some 0
      else map_option Suc (search_next_label cs))"

definition parse_no_prompt_label :: "string \<Rightarrow> dict" where
  "parse_no_prompt_label raw_text =
     (case search_next_label raw_text of
        None \<Rightarrow> [(''Prompt'', strip raw_text)]
      | Some end_index \<Rightarrow>
          (let prompt_text = strip (take end_index raw_text);
               rest_text = strip (drop end_index raw_text);
               d = (if prompt_text \<noteq> [] then dict_set [] ''Prompt'' prompt_text else []);
               labeled = parse_labeled rest_text
           in dict_update d labeled))"

text \<open>\<^verbatim>\<open>parse_sd_text\<close>. The test is the source's: the string \<^verbatim>\<open>"Prompt"\<close>, with its
  capital, looked up among the lowered keys.\<close>

definition parse_sd_text :: "string \<Rightarrow> dict" where
  "parse_sd_text raw_text =
     (let data = parse_labeled raw_text;
          data = (if ''Prompt'' \<notin> set (map lower (keys data))
                  then parse_no_prompt_label raw_text else data)
      in dict_set data ''RawSnippet'' raw_text)"

section \<open>The locator\<close>

text \<open>
  \<^verbatim>\<open>bdata.decode("utf-8", errors="ignore")\<close>. A text being held as its UTF-8 encoding,
  decoding keeps the well-formed sequences and leaves out the bytes that are in none,
  as CPython's decoder does with the handler \<^verbatim>\<open>ignore\<close>: a byte that cannot start a
  sequence is left out alone; a sequence broken by a byte that cannot continue it loses
  the bytes read so far and decoding resumes at the offending byte; a sequence cut by
  the end of the input is left out whole.
\<close>

definition is_continuation :: "char \<Rightarrow> bool" where
  "is_continuation b = (0x80 \<le> (of_char b :: nat) \<and> (of_char b :: nat) < 0xC0)"

text \<open>What a byte announces when a sequence is to start at it: a character of its own,
  a sequence of two, three or four bytes, or nothing (a continuation byte, C0, C1, and
  F5 or more).\<close>

datatype lead_byte = Ascii | Invalid_start | Lead2 | Lead3 | Lead4

definition lead_byte :: "char \<Rightarrow> lead_byte" where
  "lead_byte b =
     (let n = (of_char b :: nat) in
      if n < 0x80 then Ascii
      else if n < 0xC2 then Invalid_start
      else if n < 0xE0 then Lead2
      else if n < 0xF0 then Lead3
      else if n < 0xF5 then Lead4
      else Invalid_start)"

text \<open>The second byte of a sequence of three or four bytes: a continuation byte, in
  the narrower range that the lead bytes E0, ED, F0 and F4 ask for (no overlong form, no
  surrogate, nothing beyond U+10FFFF).\<close>

definition second_ok :: "char \<Rightarrow> char \<Rightarrow> bool" where
  "second_ok b b2 =
     (is_continuation b2 \<and>
      (if b = CHR 0xE0 then 0xA0 \<le> (of_char b2 :: nat)
       else if b = CHR 0xED then (of_char b2 :: nat) < 0xA0
       else if b = CHR 0xF0 then 0x90 \<le> (of_char b2 :: nat)
       else if b = CHR 0xF4 then (of_char b2 :: nat) < 0x90
       else True))"

fun decode_utf8_ignore :: "bytes \<Rightarrow> string" where
  "decode_utf8_ignore [] = []"
| "decode_utf8_ignore (b # bs) =
     (case lead_byte b of
        Ascii \<Rightarrow> b # decode_utf8_ignore bs
      | Invalid_start \<Rightarrow> decode_utf8_ignore bs
      | Lead2 \<Rightarrow>
          (case bs of
             [] \<Rightarrow> []
           | b2 # r2 \<Rightarrow>
               if is_continuation b2 then b # b2 # decode_utf8_ignore r2
               else decode_utf8_ignore bs)
      | Lead3 \<Rightarrow>
          (case bs of
             [] \<Rightarrow> []
           | b2 # r2 \<Rightarrow>
               if \<not> second_ok b b2 then decode_utf8_ignore bs
               else (case r2 of
                       [] \<Rightarrow> []
                     | b3 # r3 \<Rightarrow>
                         if is_continuation b3 then b # b2 # b3 # decode_utf8_ignore r3
                         else decode_utf8_ignore r2))
      | Lead4 \<Rightarrow>
          (case bs of
             [] \<Rightarrow> []
           | b2 # r2 \<Rightarrow>
               if \<not> second_ok b b2 then decode_utf8_ignore bs
               else (case r2 of
                       [] \<Rightarrow> []
                     | b3 # r3 \<Rightarrow>
                         if \<not> is_continuation b3 then decode_utf8_ignore r2
                         else (case r3 of
                                 [] \<Rightarrow> []
                               | b4 # r4 \<Rightarrow>
                                   if is_continuation b4
                                   then b # b2 # b3 # b4 # decode_utf8_ignore r4
                                   else decode_utf8_ignore r3))))"

definition fallback_search :: "bytes \<Rightarrow> string" where
  "fallback_search bdata = decode_utf8_ignore bdata"

text \<open>
  The image that Pillow hands back. \<^verbatim>\<open>img.info\<close> is kept as its entries with a string
  value (the text chunks of a PNG among them) and, apart, its entry \<^verbatim>\<open>"exif"\<close>, which is
  a \<^verbatim>\<open>bytes\<close> value. The class of the object says whether it has the attribute
  \<^verbatim>\<open>text\<close>: a \<^verbatim>\<open>PngImageFile\<close> has it, a \<^verbatim>\<open>WebPImageFile\<close> may, and the code reads it
  of no other class.
\<close>

datatype image_class = PngImageFile dict | WebPImageFile "dict option" | OtherImageFile

record pil_image =
  img_format :: string
  img_class :: image_class
  img_info :: dict
  img_exif :: "bytes option"

text \<open>
  The library functions the locator calls, taken as parameters: \<^verbatim>\<open>Image.open\<close> gives
  the image or raises (\<open>Inl\<close> the message of the exception); \<^verbatim>\<open>piexif.load\<close> gives the
  EXIF dictionary, of which only the entry \<^verbatim>\<open>["Exif"][UserComment]\<close> is read (\<open>None\<close>
  when the call raises, \<open>Some None\<close> when there is no such entry);
  \<^verbatim>\<open>piexif.helper.UserComment.load\<close> gives the comment or raises (\<open>None\<close>).
\<close>

record libs =
  image_open :: "bytes \<Rightarrow> string + pil_image"
  piexif_load :: "bytes \<Rightarrow> bytes option option"
  usercomment_load :: "bytes \<Rightarrow> string option"

text \<open>The calls made to the EXIF library, in order: they say whether the EXIF block of
  an image was read.\<close>

datatype lib_call = Piexif_load bytes | UserComment_load bytes

definition extract_exif_usercomment :: "libs \<Rightarrow> pil_image \<Rightarrow> string \<times> lib_call list" where
  "extract_exif_usercomment L img =
     (case img_exif img of
        None \<Rightarrow> ([], [])
      | Some exif \<Rightarrow>
          (case piexif_load L exif of
             None \<Rightarrow> ([], [Piexif_load exif])
           | Some None \<Rightarrow> ([], [Piexif_load exif])
           | Some (Some uc) \<Rightarrow>
               if uc = [] then ([], [Piexif_load exif])
               else (case usercomment_load L uc of
                       Some comment \<Rightarrow> (comment, [Piexif_load exif, UserComment_load uc])
                     | None \<Rightarrow>
                         (decode_utf8_ignore uc, [Piexif_load exif, UserComment_load uc]))))"

text \<open>The dictionary \<^verbatim>\<open>details\<close> that \<^verbatim>\<open>extract_sd_meta\<close> collects.\<close>

definition details_of :: "pil_image \<Rightarrow> dict" where
  "details_of img =
     (let details = [];
          details = (if img_format img \<in> set [''PNG'', ''WEBP'']
                     then dict_update details (img_info img) else details);
          details = (case img_class img of
                       PngImageFile text_chunks \<Rightarrow> dict_update details text_chunks
                     | _ \<Rightarrow> details);
          details = (case img_class img of
                       WebPImageFile (Some text_chunks) \<Rightarrow> dict_update details text_chunks
                     | _ \<Rightarrow> details)
      in details)"

text \<open>\<^verbatim>\<open>extract_sd_meta\<close>: the dictionary \<^verbatim>\<open>meta_info\<close> it returns, and the calls it
  made to the EXIF library.\<close>

definition extract_sd_meta :: "libs \<Rightarrow> bytes \<Rightarrow> dict \<times> lib_call list" where
  "extract_sd_meta L bdata =
     (case image_open L bdata of
        Inl e \<Rightarrow> (dict_set [] ''error'' e, [])
      | Inr img \<Rightarrow>
          (let meta_info = dict_set [] ''format'' (img_format img);
               pillow_str = dict_get (details_of img) ''parameters'' [];
               (exif_str, calls) = (if img_format img = ''WEBP''
                                    then extract_exif_usercomment L img else ([], []))
           in if pillow_str \<noteq> [] then
                (dict_update (dict_set meta_info ''foundIn'' ''Pillow info/text'')
                   (parse_sd_text pillow_str), calls)
              else if exif_str \<noteq> [] then
                (dict_update (dict_set meta_info ''foundIn'' ''Exif UserComment'')
                   (parse_sd_text exif_str), calls)
              else
                (dict_update (dict_set meta_info ''foundIn'' ''Fallback'')
                   (parse_sd_text (fallback_search bdata)), calls)))"

section \<open>The presenter\<close>

text \<open>
  The part of \<^verbatim>\<open>main\<close> that builds the table, once \<^verbatim>\<open>RawSnippet\<close>, \<^verbatim>\<open>foundIn\<close> and
  \<^verbatim>\<open>format\<close> have been popped from \<^verbatim>\<open>meta\<close>. \<open>order_loop\<close> is the loop over
  \<^verbatim>\<open>order\<close>: for each label, the first key of \<^verbatim>\<open>meta\<close> equal to it up to case, if any,
  is popped and its value stored under the label. \<open>display_table\<close> is the dictionary
  shown, \<open>None\<close> when \<^verbatim>\<open>meta\<close> is empty and the message is shown in its place.
\<close>

definition order :: "string list" where
  "order = [''Prompt'', ''Negative Prompt'', ''Steps'', ''Sampler'',
            ''CFG Scale'', ''Seed'', ''Size'', ''Model hash'', ''Model'', ''Version'']"



text \<open>
  For stating what \<^verbatim>\<open>parse_labeled\<close> leaves in \<^verbatim>\<open>results\<close>: the key and the item one
  match stores (as in \<open>store_match\<close>), and the elements of a list in the order of their
  first occurrences.
\<close>

definition match_key :: "re_match \<Rightarrow> string" where
  "match_key m = stored_key (strip (m_label m))"


primrec first_occurrences :: "'a list \<Rightarrow> 'a list" where
  "first_occurrences [] = []"
| "first_occurrences (x # xs) = x # filter (\<lambda>y. y \<noteq> x) (first_occurrences xs)"

section \<open>The value of a label, as the specification words it\<close>

text \<open>
  The specification describes the value of a match of \<^verbatim>\<open><Label>:\<close> without the
  pattern: it runs from just after the colon to the next place where a recognized label
  with its colon stands, or the bare word Model or Version, or to the end of the text,
  and is stored trimmed. \<open>spec_boundary_here\<close> is that test at the head of a text,
  \<open>spec_value_end\<close> the number of characters before the first such place, and
  \<open>spec_value\<close> the stored value, given the text after the colon.
\<close>

definition spec_boundary_here :: "string \<Rightarrow> bool" where
  "spec_boundary_here s =
     (list_ex (\<lambda>l. ci_prefix l s) LABELS \<or> ci_prefix ''Model'' s \<or> ci_prefix ''Version'' s)"

fun spec_value_end :: "string \<Rightarrow> nat" where
  "spec_value_end [] = 0"
| "spec_value_end (c # cs) =
     (if spec_boundary_here (c # cs) then 0 else Suc (spec_value_end cs))"

definition spec_value :: "string \<Rightarrow> string" where
  "spec_value after_colon = strip (take (spec_value_end after_colon) after_colon)"

section \<open>Example images\<close>

text \<open>
  Images and libraries for the examples: the eight bytes every PNG file starts with, the
  header of a WEBP file, a PNG whose text chunk \<^verbatim>\<open>parameters\<close> is given, a PNG without
  text, a WEBP with an EXIF block and the given text properties, and libraries that open
  every content as the given image and answer every EXIF request the same way.
\<close>

definition png_signature :: bytes where
  "png_signature = [CHR 0x89, CHR ''P'', CHR ''N'', CHR ''G'', CHR 0x0D, CHR 0x0A, CHR 0x1A, CHR 0x0A]"

definition webp_header :: bytes where
  "webp_header = ''RIFF'' @ [CHR 0x1A, CHR 0x00, CHR 0x00, CHR 0x00] @ ''WEBP''"

definition png_with_parameters :: "string \<Rightarrow> pil_image" where
  "png_with_parameters p =
     \<lparr>img_format = ''PNG'', img_class = PngImageFile [(''parameters'', p)],
      img_info = [(''parameters'', p)], img_exif = None\<rparr>"


definition webp_with_exif :: "dict \<Rightarrow> pil_image" where
  "webp_with_exif info =
     \<lparr>img_format = ''WEBP'', img_class = WebPImageFile None, img_info = info,
      img_exif = Some ''Exif''\<rparr>"

definition libs_of :: "pil_image \<Rightarrow> bytes option option \<Rightarrow> string option \<Rightarrow> libs" where
  "libs_of img exif_dict comment =
     \<lparr>image_open = (\<lambda>bdata. Inr img), piexif_load = (\<lambda>exif. exif_dict),
      usercomment_load = (\<lambda>uc. comment)\<rparr>"

section \<open>The scan ends\<close>

lemma lazy_value_append: "lazy_value s = (v, rest) \<Longrightarrow> v @ rest = s"
  by (induction s arbitrary: v rest) (auto split: if_splits prod.splits)

lemma ci_prefix_length: "ci_prefix p s \<Longrightarrow> length p \<le> length s"
  by (induction p s rule: ci_prefix.induct) auto

lemma match_at_length:
  assumes "match_at s = Some (lab, v, n)"
  shows "0 < n \<and> n \<le> length s"
proof -
  from assms obtain a rest where a: "find (\<lambda>a. ci_prefix (a @ '':'') s) label_alternatives = Some a"
    and lv: "lazy_value (dropWhile isspace (drop (length a + 1) s)) = (v, rest)"
    and n: "n = length s - length rest"
    by (auto simp: match_at_def split: option.splits prod.splits)
  from a have "ci_prefix (a @ '':'') s"
    by (auto simp: find_Some_iff)
  then have len: "length a + 1 \<le> length s"
    using ci_prefix_length by fastforce
  have "length (v @ rest) \<le> length (drop (length a + 1) s)"
    unfolding lazy_value_append [OF lv] by (rule length_dropWhile_le)
  then have "length rest \<le> length s - (length a + 1)"
    by simp
  with len n show ?thesis
    by linarith
qed

termination finditer_from
proof (relation "measure (\<lambda>(pos, s). length s)", goal_cases)
  case 1
  show ?case by simp
next
  case (2 pos s)
  then show ?case by (cases s) auto
next
  case (3 pos s x2 lab y v n)
  then have "0 < n \<and> n \<le> length s"
    using match_at_length by blast
  then have "length s - n < length s"
    by linarith
  then show ?case by simp
qed

declare finditer_from.simps [simp del]

section \<open>Dictionaries and letter case: basic facts\<close>

lemma map_of_dict_set: "map_of (dict_set d k v) = (map_of d)(k \<mapsto> v)"
  by (induction d k v rule: dict_set.induct) auto

lemma keys_dict_set:
  "keys (dict_set d k v) = (if k \<in> set (keys d) then keys d else keys d @ [k])"
  by (induction d k v rule: dict_set.induct) (auto simp: keys_def)

lemma distinct_dict_set: "distinct (keys d) \<Longrightarrow> distinct (keys (dict_set d k v))"
  by (simp add: keys_dict_set)

lemma distinct_dict_update: "distinct (keys d) \<Longrightarrow> distinct (keys (dict_update d e))"
  unfolding dict_update_def
  by (induction e arbitrary: d) (auto simp: distinct_dict_set)

lemma distinct_foldl_store_match:
  "distinct (keys acc) \<Longrightarrow> distinct (keys (foldl store_match acc ms))"
  by (induction ms arbitrary: acc) (auto simp: store_match_def Let_def distinct_dict_set)

lemma distinct_parse_labeled: "distinct (keys (parse_labeled text))"
  unfolding parse_labeled_def
  by (rule distinct_foldl_store_match) (simp add: keys_def)

lemma distinct_parse_no_prompt_label: "distinct (keys (parse_no_prompt_label text))"
  by (auto simp: parse_no_prompt_label_def Let_def keys_def [of "[]"] keys_def [of "[x]" for x]
      intro!: distinct_dict_update split: option.splits)

lemma distinct_parse_sd_text: "distinct (keys (parse_sd_text text))"
  by (simp add: parse_sd_text_def Let_def distinct_dict_set distinct_parse_labeled
      distinct_parse_no_prompt_label)

lemma lower_c_range: "lower_c c \<notin> set ascii_uppercase"
  by (auto simp: lower_c_def ascii_uppercase_def ascii_lowercase_def split: option.splits)

lemma lower_never_Prompt: "lower k \<noteq> ''Prompt''"
proof
  assume "lower k = ''Prompt''"
  then obtain c where "lower_c c = CHR ''P''"
    by (cases k) (auto simp: lower_def)
  with lower_c_range [of c] show False
    by (simp add: ascii_uppercase_def)
qed

lemma Prompt_not_lowered: "''Prompt'' \<notin> set (map lower ks)"
proof
  assume "''Prompt'' \<in> set (map lower ks)"
  then obtain k where "lower k = ''Prompt''"
    by auto
  with lower_never_Prompt show False
    by blast
qed

text \<open>No lowered key is the capitalised \<^verbatim>\<open>"Prompt"\<close>, so the test of \<^verbatim>\<open>parse_sd_text\<close>
  holds for every text and the result of \<^verbatim>\<open>parse_labeled\<close> is always replaced by that
  of \<^verbatim>\<open>parse_no_prompt_label\<close>.\<close>

lemma parse_sd_text_heuristic:
  "parse_sd_text raw_text = dict_set (parse_no_prompt_label raw_text) ''RawSnippet'' raw_text"
  using Prompt_not_lowered [of "keys (parse_labeled raw_text)"]
  by (simp add: parse_sd_text_def Let_def)

section \<open>Trimming and the lookahead\<close>

lemma rstrip_Cons:
  "rstrip (x # xs) = (if (\<forall>c\<in>set xs. isspace c) \<and> isspace x then [] else x # rstrip xs)"
  by (simp add: rstrip_def dropWhile_append)

lemma rstrip_Nil: "rstrip [] = []"
  by (simp add: rstrip_def)

lemma rstrip_eq_Nil: "rstrip s = [] \<longleftrightarrow> (\<forall>c\<in>set s. isspace c)"
  by (simp add: rstrip_def)

lemma rstrip_rstrip: "rstrip (rstrip s) = rstrip s"
  by (simp add: rstrip_def)

lemma rstrip_spaces: "\<forall>c\<in>set s. isspace c \<Longrightarrow> rstrip s = []"
  by (simp add: rstrip_eq_Nil)

lemma lstrip_rstrip: "dropWhile isspace (rstrip s) = rstrip (dropWhile isspace s)"
proof (induction s)
  case Nil
  show ?case by (simp add: rstrip_Nil)
next
  case (Cons x xs)
  show ?case
  proof (cases "isspace x")
    case True
    show ?thesis
    proof (cases "\<forall>c\<in>set xs. isspace c")
      case all: True
      have "\<forall>c\<in>set (dropWhile isspace (x # xs)). isspace c"
        using all True by (auto dest: set_dropWhileD)
      then have r: "rstrip (dropWhile isspace (x # xs)) = []"
        by (rule rstrip_spaces)
      from all True have "rstrip (x # xs) = []"
        by (simp add: rstrip_Cons)
      with r show ?thesis
        by simp
    next
      case False
      then have "rstrip (x # xs) = x # rstrip xs"
        by (auto simp: rstrip_Cons)
      with True Cons.IH show ?thesis
        by simp
    qed
  next
    case False
    then show ?thesis
      by (simp add: rstrip_Cons)
  qed
qed

lemma strip_rstrip: "strip (rstrip s) = strip s"
  by (simp add: strip_def lstrip_rstrip rstrip_rstrip)

lemma ci_prefix_append:
  "ci_prefix (p @ q) s = (ci_prefix p s \<and> ci_prefix q (drop (length p) s))"
  by (induction p s rule: ci_prefix.induct) auto

lemma ci_prefix_Cons_hd: "ci_prefix (p # ps) s \<Longrightarrow> s \<noteq> [] \<and> lower_c (hd s) = lower_c p"
  by (cases s) auto

lemma lower_c_space:
  assumes "isspace c"
  shows "lower_c c = c"
proof -
  have "\<forall>c\<in>set [CHR 0x09, CHR 0x0A, CHR 0x0B, CHR 0x0C, CHR 0x0D,
                    CHR 0x1C, CHR 0x1D, CHR 0x1E, CHR 0x1F, CHR 0x20]. lower_c c = c"
    by (simp add: lower_c_def ascii_uppercase_def ascii_lowercase_def)
  with assms show ?thesis
    unfolding isspace_def by blast
qed

lemma stop_alternatives_spec:
  "list_ex (\<lambda>t. ci_prefix t s) lookahead_alternatives = spec_boundary_here s"
proof -
  have m: "ci_prefix ''Model:'' s \<Longrightarrow> ci_prefix ''Model'' s"
    using ci_prefix_append [of "''Model''" "'':''" s] by simp
  have h: "ci_prefix ''Model hash:'' s \<Longrightarrow> ci_prefix ''Model'' s"
    using ci_prefix_append [of "''Model''" "'' hash:''" s] by simp
  have v: "ci_prefix ''Version:'' s \<Longrightarrow> ci_prefix ''Version'' s"
    using ci_prefix_append [of "''Version''" "'':''" s] by simp
  show ?thesis
    using m h v by (auto simp: lookahead_alternatives_def LABELS_def spec_boundary_here_def)
qed

lemma boundary_not_space:
  assumes "spec_boundary_here s"
  shows "s \<noteq> [] \<and> \<not> isspace (hd s)"
proof -
  from assms obtain p ps where p: "ci_prefix (p # ps) s" and "p \<in> set ''PNSCMV''"
    by (auto simp: spec_boundary_here_def LABELS_def)
  moreover have "\<forall>p\<in>set ''PNSCMV''. \<not> isspace (lower_c p)"
    by (simp add: isspace_def lower_c_def ascii_uppercase_def ascii_lowercase_def)
  ultimately have np: "\<not> isspace (lower_c p)"
    by blast
  from ci_prefix_Cons_hd [OF p] have s: "s \<noteq> []" and l: "lower_c (hd s) = lower_c p"
    by simp_all
  from np l lower_c_space [of "hd s"] have "\<not> isspace (hd s)"
    by auto
  with s show ?thesis by simp
qed

lemma drop_takeWhile_length: "drop (length (takeWhile P s)) s = dropWhile P s"
  by (induction s) auto

lemma length_takeWhile_dropWhile:
  "length (takeWhile P s) + length (dropWhile P s) = length s"
  by (induction s) auto

lemma lookahead_iff:
  "lookahead s = (dropWhile isspace s = [] \<or> spec_boundary_here (dropWhile isspace s))"
proof
  assume "lookahead s"
  then have "\<exists>j\<in>set [0 ..< Suc (length (takeWhile isspace s))]. stop_here (drop j s)"
    by (simp only: lookahead_def list_ex_iff)
  then obtain j where jm: "j \<in> set [0 ..< Suc (length (takeWhile isspace s))]"
    and st: "stop_here (drop j s)"
    by blast
  from jm have j: "j \<le> length (takeWhile isspace s)"
    by auto
  show "dropWhile isspace s = [] \<or> spec_boundary_here (dropWhile isspace s)"
  proof (cases "j = length (takeWhile isspace s)")
    case True
    then have d: "drop j s = dropWhile isspace s"
      by (simp add: drop_takeWhile_length)
    have "dropWhile isspace s \<noteq> [CHR 0x0A]"
    proof
      assume eq: "dropWhile isspace s = [CHR 0x0A]"
      then have "\<not> isspace (hd [CHR 0x0A])"
        using hd_dropWhile [of isspace s] by simp
      then show False
        by (simp add: isspace_def)
    qed
    moreover from st have "dropWhile isspace s = [] \<or> dropWhile isspace s = [CHR 0x0A]
        \<or> spec_boundary_here (dropWhile isspace s)"
      by (simp only: d stop_here_def dollar_def stop_alternatives_spec) blast
    ultimately show ?thesis
      by blast
  next
    case False
    with j have lt: "j < length (takeWhile isspace s)"
      by simp
    then have js: "j < length s"
      using length_takeWhile_le [of isspace s] by simp
    have "takeWhile isspace s ! j \<in> set (takeWhile isspace s)"
      using lt by simp
    then have "isspace (takeWhile isspace s ! j)"
      by (auto dest: set_takeWhileD)
    then have "isspace (s ! j)"
      using lt by (simp add: takeWhile_nth)
    then have sp: "isspace (hd (drop j s))"
      using js by (simp add: hd_drop_conv_nth)
    from js have ne: "drop j s \<noteq> []"
      by simp
    from st have "spec_boundary_here (drop j s) \<or> drop j s = [] \<or> drop j s = [CHR 0x0A]"
      by (simp only: stop_here_def dollar_def stop_alternatives_spec)
    with sp ne boundary_not_space [of "drop j s"] have lf: "drop j s = [CHR 0x0A]"
      by blast
    then have "length (drop j s) = 1"
      by simp
    then have "length s = Suc j"
      by simp
    with lt length_takeWhile_dropWhile [of isspace s] have "length (dropWhile isspace s) = 0"
      by linarith
    then show ?thesis
      by simp
  qed
next
  assume r: "dropWhile isspace s = [] \<or> spec_boundary_here (dropWhile isspace s)"
  then have "stop_here (drop (length (takeWhile isspace s)) s)"
    by (simp only: drop_takeWhile_length stop_here_def dollar_def stop_alternatives_spec) blast
  moreover have "length (takeWhile isspace s) \<in> set [0 ..< Suc (length (takeWhile isspace s))]"
    by simp
  ultimately show "lookahead s"
    unfolding lookahead_def list_ex_iff by blast
qed

section \<open>The lazy value is the value of the specification\<close>

lemma spec_value_end_spaces:
  "dropWhile isspace s = [] \<or> spec_boundary_here (dropWhile isspace s)
   \<Longrightarrow> take (spec_value_end s) s = takeWhile isspace s"
proof (induction s)
  case Nil
  show ?case by simp
next
  case (Cons x xs)
  show ?case
  proof (cases "isspace x")
    case True
    with boundary_not_space [of "x # xs"] have "\<not> spec_boundary_here (x # xs)"
      by auto
    with True Cons show ?thesis
      by simp
  next
    case False
    with Cons.prems have "spec_boundary_here (x # xs)"
      by simp
    with False show ?thesis
      by simp
  qed
qed

lemma spaces_before_boundary:
  "\<forall>c\<in>set (take (spec_value_end s) s). isspace c
   \<Longrightarrow> dropWhile isspace s = [] \<or> spec_boundary_here (dropWhile isspace s)"
proof (induction s)
  case Nil
  show ?case by simp
next
  case (Cons x xs)
  show ?case
  proof (cases "spec_boundary_here (x # xs)")
    case True
    with boundary_not_space [of "x # xs"] show ?thesis
      by auto
  next
    case False
    with Cons.prems have "isspace x" and "\<forall>c\<in>set (take (spec_value_end xs) xs). isspace c"
      by simp_all
    with Cons.IH show ?thesis
      by simp
  qed
qed

lemma lazy_value_spec: "fst (lazy_value s) = rstrip (take (spec_value_end s) s)"
proof (induction s)
  case Nil
  show ?case by (simp add: rstrip_Nil)
next
  case (Cons c cs)
  show ?case
  proof (cases "lookahead (c # cs)")
    case True
    then have "take (spec_value_end (c # cs)) (c # cs) = takeWhile isspace (c # cs)"
      unfolding lookahead_iff by (rule spec_value_end_spaces)
    moreover have "rstrip (takeWhile isspace (c # cs)) = []"
      by (rule rstrip_spaces) (auto dest: set_takeWhileD)
    ultimately show ?thesis
      using True by simp
  next
    case False
    then have la: "\<not> (dropWhile isspace (c # cs) = [] \<or> spec_boundary_here (dropWhile isspace (c # cs)))"
      unfolding lookahead_iff .
    have nb: "\<not> spec_boundary_here (c # cs)"
    proof
      assume b: "spec_boundary_here (c # cs)"
      with boundary_not_space [of "c # cs"] have "\<not> isspace c"
        by simp
      with b la show False
        by simp
    qed
    have "\<not> ((\<forall>x\<in>set (take (spec_value_end cs) cs). isspace x) \<and> isspace c)"
    proof
      assume a: "(\<forall>x\<in>set (take (spec_value_end cs) cs). isspace x) \<and> isspace c"
      then have "dropWhile isspace cs = [] \<or> spec_boundary_here (dropWhile isspace cs)"
        using spaces_before_boundary by blast
      with a la show False
        by simp
    qed
    then have "rstrip (c # take (spec_value_end cs) cs) = c # rstrip (take (spec_value_end cs) cs)"
      by (auto simp: rstrip_Cons)
    with False nb Cons.IH show ?thesis
      by (cases "lazy_value cs") simp
  qed
qed

lemma strip_space_Cons: "isspace x \<Longrightarrow> strip (x # s) = strip s"
  by (simp add: strip_def)

lemma spec_value_lstrip: "spec_value (dropWhile isspace s) = spec_value s"
proof (induction s)
  case Nil
  show ?case by simp
next
  case (Cons x xs)
  show ?case
  proof (cases "isspace x")
    case True
    with boundary_not_space [of "x # xs"] have "\<not> spec_boundary_here (x # xs)"
      by auto
    with True Cons.IH show ?thesis
      by (simp add: spec_value_def strip_space_Cons)
  next
    case False
    then show ?thesis by simp
  qed
qed

lemma match_at_spec:
  assumes "match_at s = Some (lab, v, n)"
  shows "\<exists>a\<in>set label_alternatives. ci_prefix (a @ '':'') s \<and> lab = take (length a) s
           \<and> length lab = length a \<and> strip v = spec_value (drop (length a + 1) s)"
proof -
  from assms obtain a rest where a: "find (\<lambda>a. ci_prefix (a @ '':'') s) label_alternatives = Some a"
    and lv: "lazy_value (dropWhile isspace (drop (length a + 1) s)) = (v, rest)"
    and lab: "lab = take (length a) s"
    by (auto simp: match_at_def split: option.splits prod.splits)
  from a have mem: "a \<in> set label_alternatives" and pre: "ci_prefix (a @ '':'') s"
    by (auto simp: find_Some_iff)
  from pre have "length (a @ '':'') \<le> length s"
    by (rule ci_prefix_length)
  with lab have len: "length lab = length a"
    by simp
  from lv have "v = fst (lazy_value (dropWhile isspace (drop (length a + 1) s)))"
    by simp
  then have "strip v = spec_value (dropWhile isspace (drop (length a + 1) s))"
    by (simp add: lazy_value_spec strip_rstrip spec_value_def)
  then have "strip v = spec_value (drop (length a + 1) s)"
    by (simp only: spec_value_lstrip)
  with mem pre lab len show ?thesis
    by blast
qed

lemma finditer_from_match:
  "m \<in> set (finditer_from pos s) \<Longrightarrow>
     pos \<le> m_start m \<and>
     match_at (drop (m_start m - pos) s) = Some (m_label m, m_value m, m_end m - m_start m)"
proof (induction pos s rule: finditer_from.induct)
  case (1 pos s)
  show ?case
  proof (cases "s = []")
    case True
    with "1.prems" show ?thesis
      by (simp add: finditer_from.simps)
  next
    case ne: False
    show ?thesis
    proof (cases "match_at s")
      case None
      with ne "1.prems" have "m \<in> set (finditer_from (Suc pos) (tl s))"
        by (simp add: finditer_from.simps [of pos s])
      with "1.IH"(1) [OF ne None] have ih: "Suc pos \<le> m_start m"
        and ma: "match_at (drop (m_start m - Suc pos) (tl s))
                   = Some (m_label m, m_value m, m_end m - m_start m)"
        by simp_all
      from ih have "m_start m - pos = Suc (m_start m - Suc pos)"
        by simp
      with ma ih show ?thesis
        by (simp add: drop_Suc)
    next
      case (Some t)
      obtain lab v n where t: "t = (lab, v, n)"
        by (cases t) auto
      from ne Some t "1.prems"
      have "m = \<lparr>m_start = pos, m_end = pos + n, m_label = lab, m_value = v\<rparr>
            \<or> m \<in> set (finditer_from (pos + n) (drop n s))"
        by (simp add: finditer_from.simps [of pos s])
      then show ?thesis
      proof
        assume "m = \<lparr>m_start = pos, m_end = pos + n, m_label = lab, m_value = v\<rparr>"
        with Some t show ?thesis
          by simp
      next
        assume "m \<in> set (finditer_from (pos + n) (drop n s))"
        with "1.IH"(2) [OF ne Some t [symmetric] refl]
        have ihc: "pos + n \<le> m_start m \<and>
                   match_at (drop (m_start m - (pos + n)) (drop n s))
                     = Some (m_label m, m_value m, m_end m - m_start m)"
          by blast
        then have ih: "pos + n \<le> m_start m"
          by (rule conjunct1)
        from ihc have "match_at (drop (m_start m - (pos + n)) (drop n s))
                     = Some (m_label m, m_value m, m_end m - m_start m)"
          by (rule conjunct2)
        then have "match_at (drop (m_start m - (pos + n) + n) s)
                     = Some (m_label m, m_value m, m_end m - m_start m)"
          by (simp only: drop_drop)
        moreover from ih have "m_start m - (pos + n) + n = m_start m - pos"
          by simp
        ultimately have "match_at (drop (m_start m - pos) s)
                     = Some (m_label m, m_value m, m_end m - m_start m)"
          by (simp only:)
        with ih show ?thesis
          by simp
      qed
    qed
  qed
qed

section \<open>Repeated labels\<close>

lemma keys_store_match:
  "keys (store_match acc m) =
     (if match_key m \<in> set (keys acc) then keys acc else keys acc @ [match_key m])"
  by (simp add: store_match_def match_key_def Let_def keys_dict_set)


lemma keys_foldl_store_match:
  "keys (foldl store_match acc ms) =
     keys acc @ filter (\<lambda>k. k \<notin> set (keys acc)) (first_occurrences (map match_key ms))"
proof (induction ms arbitrary: acc)
  case Nil
  then show ?case by simp
next
  case (Cons m ms)
  show ?case
    by (auto simp: Cons.IH keys_store_match intro!: filter_cong)
qed



lemma set_first_occurrences: "set (first_occurrences xs) = set xs"
  by (induction xs) auto






lemma lower_c_cases: "c \<in> set ascii_uppercase \<or> lower_c c = c"
proof (cases "map_of (zip ascii_uppercase ascii_lowercase) c")
  case None
  then show ?thesis by (simp add: lower_c_def)
next
  case (Some l)
  then have "(c, l) \<in> set (zip ascii_uppercase ascii_lowercase)"
    by (rule map_of_SomeD)
  then show ?thesis
    by (auto dest: set_zip_leftD)
qed

lemma lower_c_upper_letters:
  "\<forall>c\<in>set ascii_uppercase.
     upper_c (lower_c c) = upper_c c \<and> lower_c (lower_c c) = lower_c c
     \<and> is_cased (lower_c c) = is_cased c \<and> isspace (lower_c c) = isspace c"
  by code_simp

lemma upper_c_lower_c: "upper_c (lower_c c) = upper_c c"
  using lower_c_cases [of c] lower_c_upper_letters by auto

lemma lower_c_lower_c: "lower_c (lower_c c) = lower_c c"
  using lower_c_cases [of c] lower_c_upper_letters by auto

lemma is_cased_lower_c: "is_cased (lower_c c) = is_cased c"
  using lower_c_cases [of c] lower_c_upper_letters by auto

lemma isspace_lower_c: "isspace (lower_c c) = isspace c"
  using lower_c_cases [of c] lower_c_upper_letters by auto

lemma lower_lower: "lower (lower s) = lower s"
  by (simp add: lower_def lower_c_lower_c)

lemma title_from_lower: "title_from p (lower s) = title_from p s"
  by (induction s arbitrary: p)
    (simp_all add: lower_def upper_c_lower_c lower_c_lower_c is_cased_lower_c)

lemma stored_key_lower: "stored_key (lower s) = stored_key s"
  by (simp add: stored_key_def Let_def lower_lower title_def title_from_lower)

lemma isspace_comp_lower_c: "isspace \<circ> lower_c = isspace"
  by (rule ext) (simp add: isspace_lower_c)

lemma strip_lower: "strip (lower s) = lower (strip s)"
  by (simp add: strip_def rstrip_def lower_def dropWhile_map rev_map isspace_comp_lower_c)

lemma same_label_same_key:
  assumes "lower a = lower b"
  shows "stored_key (strip a) = stored_key (strip b)"
proof -
  have "stored_key (strip a) = stored_key (strip (lower a))"
    by (simp add: strip_lower stored_key_lower)
  also have "\<dots> = stored_key (strip (lower b))"
    by (simp only: assms)
  also have "\<dots> = stored_key (strip b)"
    by (simp add: strip_lower stored_key_lower)
  finally show ?thesis .
qed

lemma ci_prefix_lower: "ci_prefix a s \<Longrightarrow> lower (take (length a) s) = lower a"
  by (induction a s rule: ci_prefix.induct) (auto simp: lower_def)

lemma finditer_label:
  assumes "m \<in> set (finditer raw)"
  shows "\<exists>a\<in>set label_alternatives. lower (m_label m) = lower a"
proof -
  from assms have "match_at (drop (m_start m) raw) = Some (m_label m, m_value m, m_end m - m_start m)"
    using finditer_from_match [of m 0 raw] by (simp add: finditer_def)
  from match_at_spec [OF this] obtain a where a: "a \<in> set label_alternatives"
    and "ci_prefix (a @ '':'') (drop (m_start m) raw)"
    and l: "m_label m = take (length a) (drop (m_start m) raw)"
    by blast
  then have "ci_prefix a (drop (m_start m) raw)"
    by (simp add: ci_prefix_append)
  then have "lower (m_label m) = lower a"
    unfolding l by (rule ci_prefix_lower)
  with a show ?thesis
    by blast
qed

lemma stored_key_alternatives:
  "map (\<lambda>a. stored_key (strip a)) label_alternatives =
     [''Prompt'', ''Negative Prompt'', ''Steps'', ''Sampler'', ''CFG Scale'', ''Seed'',
      ''Size'', ''Model hash'', ''Model'', ''Version'']"
  by code_simp




section \<open>Decoding leaves bytes out and adds none\<close>


lemma decode_utf8_ignore_ascii:
  "\<forall>b\<in>set bs. lead_byte b = Ascii \<Longrightarrow> decode_utf8_ignore bs = bs"
  by (induction bs) simp_all

section \<open>The keys of a parsed text\<close>

lemma match_key_in_order:
  assumes "m \<in> set (finditer raw)"
  shows "match_key m \<in> set order"
proof -
  from finditer_label [OF assms] obtain a where a: "a \<in> set label_alternatives"
    and "lower (m_label m) = lower a"
    by blast
  then have "match_key m = stored_key (strip a)"
    unfolding match_key_def by (intro same_label_same_key)
  with a have "match_key m \<in> set (map (\<lambda>a. stored_key (strip a)) label_alternatives)"
    by simp
  then show ?thesis
    by (simp only: stored_key_alternatives order_def)
qed

lemma keys_parse_labeled: "set (keys (parse_labeled raw)) \<subseteq> set order"
proof -
  have "keys (parse_labeled raw) = first_occurrences (map match_key (finditer raw))"
    by (simp add: parse_labeled_def keys_foldl_store_match keys_def [of "[]"])
  then show ?thesis
    using match_key_in_order by (auto simp: set_first_occurrences)
qed

lemma keys_Cons: "keys ((k, v) # d) = k # keys d"
  by (simp add: keys_def)

lemma keys_Nil: "keys [] = []"
  by (simp add: keys_def)

lemma keys_dict_update: "set (keys (dict_update d e)) = set (keys d) \<union> set (keys e)"
  unfolding dict_update_def
proof (induction e arbitrary: d)
  case Nil
  show ?case by (simp add: keys_Nil)
next
  case (Cons x e)
  obtain k v where x: "x = (k, v)"
    by (cases x)
  have "set (keys (dict_set d k v)) = insert k (set (keys d))"
    by (auto simp: keys_dict_set)
  then show ?case
    by (simp add: Cons.IH x keys_Cons)
qed

lemma map_of_dict_update: "map_of (dict_update d e) = map_of d ++ map_of (rev e)"
  unfolding dict_update_def
proof (induction e arbitrary: d)
  case Nil
  show ?case by simp
next
  case (Cons x e)
  obtain k v where x: "x = (k, v)"
    by (cases x)
  have "map_of (foldl (\<lambda>acc (k, v). dict_set acc k v) d (x # e))
        = map_of (dict_set d k v) ++ map_of (rev e)"
    by (simp add: Cons.IH x)
  also have "\<dots> = (map_of d)(k \<mapsto> v) ++ map_of (rev e)"
    by (simp only: map_of_dict_set)
  also have "\<dots> = map_of d ++ ([k \<mapsto> v] ++ map_of (rev e))"
    by (rule ext) (simp add: map_add_def split: option.splits)
  also have "[k \<mapsto> v] ++ map_of (rev e) = map_of (rev (x # e))"
    by (simp add: x)
  finally show ?case .
qed

lemma map_of_dict_update_other:
  "k \<notin> set (keys e) \<Longrightarrow> map_of (dict_update d e) k = map_of d k"
  by (simp add: map_of_dict_update map_add_def keys_def map_of_eq_None_iff [THEN iffD2]
      split: option.splits)

lemma map_of_dict_update_in:
  assumes "distinct (keys e)" and "map_of e k = Some v"
  shows "map_of (dict_update d e) k = Some v"
proof -
  from assms(2) have "(k, v) \<in> set (rev e)"
    by (auto dest: map_of_SomeD)
  moreover from assms(1) have "distinct (map fst (rev e))"
    by (simp add: keys_def rev_map [symmetric])
  ultimately have "map_of (rev e) k = Some v"
    by (intro map_of_is_SomeI)
  then show ?thesis
    by (simp add: map_of_dict_update map_add_def)
qed

lemma keys_parse_no_prompt_label: "set (keys (parse_no_prompt_label raw)) \<subseteq> set order"
  using keys_parse_labeled
  by (auto simp: parse_no_prompt_label_def Let_def keys_dict_update keys_def [of "[_]"]
      keys_def [of "[]"] order_def [THEN arg_cong, of set] split: option.splits)

lemma keys_parse_sd_text: "set (keys (parse_sd_text raw)) \<subseteq> insert ''RawSnippet'' (set order)"
  using keys_parse_no_prompt_label [of raw]
  by (auto simp: parse_sd_text_heuristic keys_dict_set)

lemma not_parsed_keys:
  "''foundIn'' \<notin> set (keys (parse_sd_text raw))" "''format'' \<notin> set (keys (parse_sd_text raw))"
  "''error'' \<notin> set (keys (parse_sd_text raw))"
  using keys_parse_sd_text [of raw] by (auto simp: order_def)

section \<open>Claims about the parser\<close>

text \<open>
  C1. The no-prompt heuristic should run only when the labeled extraction found no key
  that is \<^verbatim>\<open>prompt\<close> up to case, and otherwise the output, \<^verbatim>\<open>RawSnippet\<close> apart, should
  be the labeled extraction. The code does otherwise: on the text \<^verbatim>\<open>Prompt: a cat\<close> the
  labeled extraction has the key \<^verbatim>\<open>Prompt\<close> with the value \<^verbatim>\<open>a cat\<close>, yet the heuristic
  runs and the output holds the whole text as the prompt.
\<close>

theorem heuristic_runs_despite_prompt_key:
  "parse_labeled ''Prompt: a cat'' = [(''Prompt'', ''a cat'')]
   \<and> list_ex (\<lambda>k. lower k = ''prompt'') (keys (parse_labeled ''Prompt: a cat''))
   \<and> dict_pop (parse_sd_text ''Prompt: a cat'') ''RawSnippet''
       = [(''Prompt'', ''Prompt: a cat'')]"
  by code_simp

text \<open>
  C3. For every input text, the field map that \<^verbatim>\<open>parse_sd_text\<close> returns has the key
  \<^verbatim>\<open>RawSnippet\<close>, once, and its value is the input text itself, untrimmed, whichever
  strategy produced the other fields.
\<close>

theorem raw_snippet_is_input:
  "map_of (parse_sd_text text) ''RawSnippet'' = Some text
   \<and> distinct (keys (parse_sd_text text))"
  by (simp add: distinct_parse_sd_text) (simp add: parse_sd_text_def Let_def map_of_dict_set)

text \<open>
  C6. The parser should return, for the empty text, the entry \<^verbatim>\<open>RawSnippet\<close> and no
  other key. The code returns two entries: \<^verbatim>\<open>Prompt\<close> with the empty value, then
  \<^verbatim>\<open>RawSnippet\<close>.
\<close>

theorem empty_text_has_prompt_entry:
  "parse_sd_text [] = [(''Prompt'', []), (''RawSnippet'', [])]"
  by code_simp






section \<open>Claims about the locator\<close>

lemma meta_info_lookup:
  "map_of (dict_update [(''format'', f), (''foundIn'', s)] (parse_sd_text t)) ''foundIn'' = Some s
   \<and> map_of (dict_update [(''format'', f), (''foundIn'', s)] (parse_sd_text t)) ''format'' = Some f
   \<and> map_of (dict_update [(''format'', f), (''foundIn'', s)] (parse_sd_text t)) ''RawSnippet'' = Some t
   \<and> ''error'' \<notin> set (keys (dict_update [(''format'', f), (''foundIn'', s)] (parse_sd_text t)))"
proof -
  have "map_of (parse_sd_text t) ''RawSnippet'' = Some t"
    by (simp add: parse_sd_text_def Let_def map_of_dict_set)
  then have "map_of (dict_update [(''format'', f), (''foundIn'', s)] (parse_sd_text t)) ''RawSnippet'' = Some t"
    by (intro map_of_dict_update_in distinct_parse_sd_text)
  then show ?thesis
    by (simp add: map_of_dict_update_other not_parsed_keys keys_dict_update keys_Cons keys_Nil)
qed


lemma extract_sd_meta_exif:
  assumes "image_open L bdata = Inr img" and "dict_get (details_of img) ''parameters'' [] = []"
    and "img_format img = ''WEBP''" and "fst (extract_exif_usercomment L img) \<noteq> []"
  shows "fst (extract_sd_meta L bdata) =
           dict_update [(''format'', img_format img), (''foundIn'', ''Exif UserComment'')]
             (parse_sd_text (fst (extract_exif_usercomment L img)))"
  using assms
  by (cases "extract_exif_usercomment L img") (simp add: extract_sd_meta_def Let_def)

lemma extract_sd_meta_fallback:
  assumes "image_open L bdata = Inr img" and "dict_get (details_of img) ''parameters'' [] = []"
    and "img_format img = ''WEBP'' \<Longrightarrow> fst (extract_exif_usercomment L img) = []"
  shows "fst (extract_sd_meta L bdata) =
           dict_update [(''format'', img_format img), (''foundIn'', ''Fallback'')]
             (parse_sd_text (decode_utf8_ignore bdata))"
  using assms by (auto simp: extract_sd_meta_def Let_def fallback_search_def split: prod.splits)


text \<open>
  C2. For a PNG whose property \<^verbatim>\<open>parameters\<close> is the text with the lines
  \<^verbatim>\<open>Prompt: a cat\<close>, \<^verbatim>\<open>Negative prompt: blurry\<close> and \<^verbatim>\<open>Steps: 20\<close>, the source should be
  the embedded text and the fields Prompt = \<^verbatim>\<open>a cat\<close>, Negative Prompt = \<^verbatim>\<open>blurry\<close>,
  Steps = \<^verbatim>\<open>20\<close>. The code selects that source and gives the last two fields, but its
  Prompt is \<^verbatim>\<open>Prompt: a cat\<close>, label included: the no-prompt heuristic has run.
\<close>

theorem png_example_keeps_label_in_prompt:
  "fst (extract_sd_meta
         (libs_of (png_with_parameters ''Prompt: a cat\<newline>Negative prompt: blurry\<newline>Steps: 20'')
            None None) png_signature)
   = [(''format'', ''PNG''), (''foundIn'', ''Pillow info/text''),
      (''Prompt'', ''Prompt: a cat''), (''Negative Prompt'', ''blurry''), (''Steps'', ''20''),
      (''RawSnippet'', ''Prompt: a cat\<newline>Negative prompt: blurry\<newline>Steps: 20'')]"
  by code_simp







text \<open>
  C8, as the code has it. For a WEBP image without a non-empty \<^verbatim>\<open>parameters\<close>, no failure
  while reading the EXIF comment becomes an error of the result. With no EXIF block, a
  block that \<^verbatim>\<open>piexif.load\<close> rejects, or no comment in it, the source is the fallback. When
  the comment is there and \<^verbatim>\<open>UserComment.load\<close> rejects it, its bytes are decoded as
  UTF-8: if that text is not empty it is the text parsed and the source is the EXIF
  comment, otherwise the source is the fallback.
\<close>

theorem exif_failures_recovered:
  assumes "image_open L bdata = Inr img" and "img_format img = ''WEBP''"
    and "dict_get (details_of img) ''parameters'' [] = []"
  shows "''error'' \<notin> set (keys (fst (extract_sd_meta L bdata)))
       \<and> (img_exif img = None
            \<or> (\<exists>exif. img_exif img = Some exif
                  \<and> piexif_load L exif \<in> set [None, Some None, Some (Some [])])
          \<longrightarrow> map_of (fst (extract_sd_meta L bdata)) ''foundIn'' = Some ''Fallback'')
       \<and> (\<forall>exif uc. img_exif img = Some exif \<and> piexif_load L exif = Some (Some uc) \<and> uc \<noteq> []
              \<and> usercomment_load L uc = None
          \<longrightarrow> (if decode_utf8_ignore uc = []
               then map_of (fst (extract_sd_meta L bdata)) ''foundIn'' = Some ''Fallback''
               else map_of (fst (extract_sd_meta L bdata)) ''foundIn'' = Some ''Exif UserComment''
                  \<and> map_of (fst (extract_sd_meta L bdata)) ''RawSnippet''
                      = Some (decode_utf8_ignore uc)))"
proof (intro conjI impI allI)
  show "''error'' \<notin> set (keys (fst (extract_sd_meta L bdata)))"
  proof (cases "fst (extract_exif_usercomment L img) = []")
    case True
    with extract_sd_meta_fallback [OF assms(1,3)] show ?thesis
      by (simp add: meta_info_lookup)
  next
    case False
    with extract_sd_meta_exif [OF assms(1,3,2)] show ?thesis
      by (simp add: meta_info_lookup)
  qed
next
  assume "img_exif img = None
            \<or> (\<exists>exif. img_exif img = Some exif
                  \<and> piexif_load L exif \<in> set [None, Some None, Some (Some [])])"
  then have "fst (extract_exif_usercomment L img) = []"
    by (auto simp: extract_exif_usercomment_def)
  with extract_sd_meta_fallback [OF assms(1,3)]
  show "map_of (fst (extract_sd_meta L bdata)) ''foundIn'' = Some ''Fallback''"
    by (simp add: meta_info_lookup)
next
  fix exif uc
  assume "img_exif img = Some exif \<and> piexif_load L exif = Some (Some uc) \<and> uc \<noteq> []
              \<and> usercomment_load L uc = None"
  then have e: "fst (extract_exif_usercomment L img) = decode_utf8_ignore uc"
    by (simp add: extract_exif_usercomment_def)
  show "if decode_utf8_ignore uc = []
        then map_of (fst (extract_sd_meta L bdata)) ''foundIn'' = Some ''Fallback''
        else map_of (fst (extract_sd_meta L bdata)) ''foundIn'' = Some ''Exif UserComment''
           \<and> map_of (fst (extract_sd_meta L bdata)) ''RawSnippet'' = Some (decode_utf8_ignore uc)"
  proof (cases "decode_utf8_ignore uc = []")
    case True
    with e extract_sd_meta_fallback [OF assms(1,3)] show ?thesis
      by (simp add: meta_info_lookup)
  next
    case False
    with e extract_sd_meta_exif [OF assms(1,3,2)] show ?thesis
      by (simp add: meta_info_lookup)
  qed
qed

theorem exif_failures_recovered_witness:
  "dict_get (details_of (webp_with_exif [])) ''parameters'' [] = []
   \<and> ''error'' \<notin> set (keys (fst (extract_sd_meta (libs_of (webp_with_exif []) None None)
                                   webp_header)))
   \<and> map_of (fst (extract_sd_meta (libs_of (webp_with_exif []) None None) webp_header))
        ''foundIn'' = Some ''Fallback''"
proof -
  let ?img = "webp_with_exif []"
  let ?L = "libs_of ?img None None"
  have o: "image_open ?L webp_header = Inr ?img"
    by (simp add: libs_of_def)
  have w: "img_format ?img = ''WEBP''"
    by (simp add: webp_with_exif_def)
  have p: "dict_get (details_of ?img) ''parameters'' [] = []"
    by code_simp
  have x: "img_exif ?img = None
            \<or> (\<exists>exif. img_exif ?img = Some exif
                  \<and> piexif_load ?L exif \<in> set [None, Some None, Some (Some [])])"
    by (simp add: webp_with_exif_def libs_of_def)
  note t = exif_failures_recovered [OF o w p]
  from t have a: "''error'' \<notin> set (keys (fst (extract_sd_meta ?L webp_header)))"
    by blast
  from t x have b: "map_of (fst (extract_sd_meta ?L webp_header)) ''foundIn'' = Some ''Fallback''"
    by blast
  from p a b show ?thesis
    by blast
qed

text \<open>
  C8 as stated fails: a comment that \<^verbatim>\<open>UserComment.load\<close> rejects is not treated as
  absent. Its bytes \<^verbatim>\<open>hello\<close> are parsed and the source is the EXIF comment.
\<close>

theorem malformed_usercomment_still_selected:
  "dict_get (details_of (webp_with_exif [])) ''parameters'' [] = []
   \<and> usercomment_load (libs_of (webp_with_exif []) (Some (Some ''hello'')) None) ''hello'' = None
   \<and> extract_sd_meta (libs_of (webp_with_exif []) (Some (Some ''hello'')) None) webp_header
       = ([(''format'', ''WEBP''), (''foundIn'', ''Exif UserComment''), (''Prompt'', ''hello''),
           (''RawSnippet'', ''hello'')],
          [Piexif_load ''Exif'', UserComment_load ''hello''])"
  by code_simp

section \<open>Claims about the presenter\<close>














end
